theory Spec2Isabelle
  imports Main "HOL-Library.Sublist" "HOL-Library.Multiset"
begin

section \<open>Python strings and integers\<close>

text \<open>
  A Python \<open>str\<close> is modelled as a \<open>string\<close>, each \<open>char\<close> standing for the code point
  of the same number (0 to 255). Python integers are unbounded and are modelled as \<open>int\<close>.
  CPython refuses to convert between text and integers of more than 4300 decimal digits
  (the default of \<open>sys.set_int_max_str_digits\<close>); both \<open>int(s)\<close> and \<open>str(i)\<close> then raise
  \<open>ValueError\<close>.
\<close>

definition max_str_digits :: nat where
  "max_str_digits = 4300"

text \<open>\<open>str.isspace\<close> on one character: the white space that \<open>str.strip()\<close> removes.\<close>

definition is_space :: "char \<Rightarrow> bool" where
  "is_space c =
     (let k = (of_char c :: nat)
      in (9 \<le> k \<and> k \<le> 13) \<or> (28 \<le> k \<and> k \<le> 32) \<or> k = 133 \<or> k = 160)"

text \<open>The white space that \<open>int()\<close> skips around a number: the ASCII white space of C
  (tab to carriage return, and the space) and the white space beyond ASCII (U+0085 and
  U+00A0). Unlike \<open>strip()\<close> it does not skip the separators U+001C to U+001F.\<close>

definition is_int_space :: "char \<Rightarrow> bool" where
  "is_int_space c =
     (let k = (of_char c :: nat)
      in (9 \<le> k \<and> k \<le> 13) \<or> k = 32 \<or> k = 133 \<or> k = 160)"

definition is_digit :: "char \<Rightarrow> bool" where
  "is_digit c = (48 \<le> (of_char c :: nat) \<and> (of_char c :: nat) \<le> 57)"

definition digit_val :: "char \<Rightarrow> nat" where
  "digit_val c = of_char c - 48"

definition digit_char :: "nat \<Rightarrow> char" where
  "digit_char d = char_of (48 + d)"

text \<open>\<open>s.strip()\<close>\<close>

definition py_strip :: "string \<Rightarrow> string" where
  "py_strip s = rev (dropWhile is_space (rev (dropWhile is_space s)))"

text \<open>\<open>s.split(sep)\<close> for a one-character separator: the pieces between the separators,
  at least one piece. The first argument of \<open>split_acc\<close> is the separator, the second the
  piece read so far.\<close>

fun split_acc :: "char \<Rightarrow> string \<Rightarrow> string \<Rightarrow> string list" where
  "split_acc sep acc [] = [acc]"
| "split_acc sep acc (c # cs) =
     (if c = sep then acc # split_acc sep [] cs else split_acc sep (acc @ [c]) cs)"

definition py_split :: "char \<Rightarrow> string \<Rightarrow> string list" where
  "py_split sep s = split_acc sep [] s"

text \<open>\<open>sep.join(xs)\<close>\<close>

fun py_join :: "string \<Rightarrow> string list \<Rightarrow> string" where
  "py_join sep [] = []"
| "py_join sep [x] = x"
| "py_join sep (x # y # ys) = x @ sep @ py_join sep (y # ys)"

text \<open>The decimal digits of a natural number, most significant first, and the decimal
  text of an integer, with a minus sign for a negative number.\<close>

function str_nat :: "nat \<Rightarrow> string" where
  "str_nat n = (if n < 10 then [digit_char n] else str_nat (n div 10) @ [digit_char (n mod 10)])"
  by pat_completeness auto
termination
  by (relation "measure id") auto

declare str_nat.simps [simp del]

definition str_int :: "int \<Rightarrow> string" where
  "str_int i = (if i < 0 then CHR ''-'' # str_nat (nat (- i)) else str_nat (nat i))"

text \<open>The exceptions that the modelled code can meet.\<close>

datatype py_error = ValueError | IndexError

text \<open>\<open>str(i)\<close>, also as it is used for \<open>{i}\<close> in an f-string: the decimal text, or
  \<open>ValueError\<close> where the number has more than 4300 digits.\<close>

definition py_str :: "int \<Rightarrow> py_error + string" where
  "py_str i =
     (if length (str_nat (nat \<bar>i\<bar>)) > max_str_digits then Inl ValueError
      else Inr (str_int i))"

text \<open>\<open>int(s)\<close> for a string \<open>s\<close>: white space around the number is dropped, one sign is
  allowed, then decimal digits, where single underscores may stand between two digits.
  Anything else raises \<open>ValueError\<close>, and so does a number of more than 4300 digits
  (leading zeros counted, underscores not). \<open>parse_digits acc cs\<close> reads the digits after
  the first one, \<open>acc\<close> being the value read so far.\<close>

definition int_strip :: "string \<Rightarrow> string" where
  "int_strip s = rev (dropWhile is_int_space (rev (dropWhile is_int_space s)))"

fun parse_digits :: "nat \<Rightarrow> string \<Rightarrow> nat option" where
  "parse_digits acc [] = Some acc"
| "parse_digits acc [c] = (if is_digit c then Some (acc * 10 + digit_val c) else None)"
| "parse_digits acc (c # d # ds) =
     (if is_digit c then parse_digits (acc * 10 + digit_val c) (d # ds)
      else if c = CHR ''_'' \<and> is_digit d then parse_digits (acc * 10 + digit_val d) ds
      else None)"

definition parse_unsigned :: "string \<Rightarrow> nat option" where
  "parse_unsigned s =
     (case s of
        [] \<Rightarrow> None
      | c # cs \<Rightarrow>
          if is_digit c then
            (case parse_digits (digit_val c) cs of
               None \<Rightarrow> None
             | Some n \<Rightarrow> if length (filter is_digit s) > max_str_digits then None else Some n)
          else None)"

definition int_of_str :: "string \<Rightarrow> py_error + int" where
  "int_of_str s =
     (case int_strip s of
        [] \<Rightarrow> Inl ValueError
      | c # cs \<Rightarrow>
          (case (if c = CHR ''-'' then map_option (\<lambda>n. - int n) (parse_unsigned cs)
                 else if c = CHR ''+'' then map_option int (parse_unsigned cs)
                 else map_option int (parse_unsigned (c # cs))) of
             None \<Rightarrow> Inl ValueError
           | Some i \<Rightarrow> Inr i))"

text \<open>The score handed to the leaderboard is what the caller has: the text typed by the
  user (\<open>input()\<close>) or, for the sample data, a Python integer.\<close>

datatype raw = PyStr string | PyInt int

fun py_int :: "raw \<Rightarrow> py_error + int" where
  "py_int (PyStr s) = int_of_str s"
| "py_int (PyInt i) = Inr i"

section \<open>player_class.py\<close>

record player =
  name :: string
  score :: int
  games_played :: int
  best_score :: int
  score_history :: "int list"
  current_streak :: int

text \<open>\<open>Player.__init__(self, name, score)\<close>\<close>

definition Player :: "string \<Rightarrow> int \<Rightarrow> player" where
  "Player nm sc =
     \<lparr>name = nm, score = sc, games_played = 1, best_score = sc,
      score_history = [sc], current_streak = 0\<rparr>"

text \<open>\<open>Player.update_score(self, new_score)\<close>: the object is changed in place; the model
  returns the changed record.\<close>

definition update_score :: "player \<Rightarrow> int \<Rightarrow> player" where
  "update_score p new_score =
     (let p1 = p\<lparr>score := new_score\<rparr>;
          p2 = p1\<lparr>games_played := games_played p1 + 1\<rparr>;
          p3 = p2\<lparr>score_history := score_history p2 @ [new_score]\<rparr>
      in if new_score > best_score p3
         then p3\<lparr>best_score := new_score, current_streak := current_streak p3 + 1\<rparr>
         else p3\<lparr>current_streak := 0\<rparr>)"

section \<open>score_manager.py: ScoreValidator\<close>

text \<open>\<open>ScoreValidator.validate_score(score)\<close>: the printed messages are left out, the
  returned truth value is kept. The \<open>except ValueError\<close> branch is the \<open>Inl\<close> case.\<close>

definition validate_score :: "raw \<Rightarrow> bool" where
  "validate_score r =
     (case py_int r of
        Inl e \<Rightarrow> False
      | Inr sc \<Rightarrow> if sc < 0 then False else if sc > 10000 then False else True)"

text \<open>\<open>ScoreValidator.validate_name(name)\<close>\<close>

definition validate_name :: "string \<Rightarrow> bool" where
  "validate_name nm =
     (if nm = [] \<or> length (py_strip nm) = 0 then False
      else if length nm > 20 then False
      else True)"

section \<open>score_manager.py: Leaderboard\<close>

text \<open>
  \<open>self.players\<close> is a Python \<open>dict\<close> from names to \<open>Player\<close> objects. A \<open>dict\<close> iterates
  in insertion order, and the ranking's ties depend on that order, so it is modelled as an
  association list in insertion order. \<open>disk\<close> is the content of the file
  \<open>leaderboard.txt\<close>, \<open>None\<close> when the file does not exist. The operating system is taken
  to open, read and write the file without error.
\<close>

type_synonym 'v dict = "(string \<times> 'v) list"

record leaderboard =
  players :: "player dict"
  disk :: "string option"

text \<open>\<open>d[k] = v\<close>: an existing key keeps its place, a new key goes to the end.\<close>

fun dict_set :: "'v dict \<Rightarrow> string \<Rightarrow> 'v \<Rightarrow> 'v dict" where
  "dict_set [] k v = [(k, v)]"
| "dict_set ((k', v') # d) k v =
     (if k' = k then (k, v) # d else (k', v') # dict_set d k v)"

text \<open>\<open>d.values()\<close>\<close>

definition dict_values :: "'v dict \<Rightarrow> 'v list" where
  "dict_values d = map snd d"

text \<open>\<open>sorted(xs, key=key, reverse=True)\<close>: Python's sort is stable, and with
  \<open>reverse=True\<close> it reverses the list, sorts it in ascending order and reverses the
  result, so that elements with equal keys keep their order.\<close>

definition py_sorted_reverse :: "('a \<Rightarrow> int) \<Rightarrow> 'a list \<Rightarrow> 'a list" where
  "py_sorted_reverse key xs = rev (sort_key key (rev xs))"

text \<open>\<open>xs[:n]\<close>: a negative \<open>n\<close> counts from the end.\<close>

definition slice_to :: "int \<Rightarrow> 'a list \<Rightarrow> 'a list" where
  "slice_to n xs = (if 0 \<le> n then take (nat n) xs else take (length xs - nat (- n)) xs)"

text \<open>\<open>Leaderboard.get_top_players(self, n)\<close>\<close>

definition sorted_players :: "leaderboard \<Rightarrow> player list" where
  "sorted_players lb = py_sorted_reverse score (dict_values (players lb))"

definition get_top_players :: "leaderboard \<Rightarrow> int \<Rightarrow> player list" where
  "get_top_players lb n = slice_to n (sorted_players lb)"

text \<open>\<open>Leaderboard.save_leaderboard(self)\<close>. \<open>now\<close> is the text that
  \<open>datetime.now().strftime('%Y-%m-%d %H:%M:%S')\<close> returns at the time of the call.
  Opening the file with mode \<open>'w'\<close> discards what it held. The text is stored as it is
  written: the line separator of the platform is taken to be \<open>\n\<close>, and the encoding is
  taken to keep every character.

  The method writes the two header lines and then, for each of the ten best players, two
  pieces: \<open>f"{name}|{score}|{games_played}|"\<close> and \<open>f"{best_score}|{history}\n"\<close>. An
  f-string is built before it is written, so a number that cannot be printed raises before
  anything of its piece is written; the \<open>except\<close> clause then only prints a message, and
  the file keeps the pieces written so far.\<close>

definition LF :: char where
  "LF = CHR 0x0A"

definition CR :: char where
  "CR = CHR 0x0D"

fun map_str :: "int list \<Rightarrow> py_error + string list" where
  "map_str [] = Inr []"
| "map_str (i # is) =
     (case py_str i of
        Inl e \<Rightarrow> Inl e
      | Inr s \<Rightarrow> (case map_str is of Inl e \<Rightarrow> Inl e | Inr ss \<Rightarrow> Inr (s # ss)))"

definition line_head :: "player \<Rightarrow> py_error + string" where
  "line_head p =
     (case py_str (score p) of Inl e \<Rightarrow> Inl e | Inr sc \<Rightarrow>
     (case py_str (games_played p) of Inl e \<Rightarrow> Inl e | Inr gp \<Rightarrow>
        Inr (name p @ ''|'' @ sc @ ''|'' @ gp @ ''|'')))"

definition line_tail :: "player \<Rightarrow> py_error + string" where
  "line_tail p =
     (case py_str (best_score p) of Inl e \<Rightarrow> Inl e | Inr bs \<Rightarrow>
     (case map_str (score_history p) of Inl e \<Rightarrow> Inl e | Inr hs \<Rightarrow>
        Inr (bs @ ''|'' @ py_join '','' hs @ [LF])))"

definition header_lines :: "string \<Rightarrow> string list" where
  "header_lines now = [''Leaderboard - Updated: '' @ now @ [LF], replicate 60 CHR ''='' @ [LF]]"

text \<open>The text that a sequence of \<open>f.write\<close> calls leaves in the file when the first
  piece that raises ends the sequence.\<close>

fun written :: "(py_error + string) list \<Rightarrow> string" where
  "written [] = []"
| "written (Inl e # ws) = []"
| "written (Inr s # ws) = s @ written ws"

definition save_leaderboard :: "string \<Rightarrow> leaderboard \<Rightarrow> leaderboard" where
  "save_leaderboard now lb =
     lb\<lparr>disk := Some (written (map Inr (header_lines now)
         @ concat (map (\<lambda>p. [line_head p, line_tail p]) (get_top_players lb 10))))\<rparr>"

text \<open>\<open>Leaderboard.add_score(self, name, score)\<close>. The second \<open>int(score)\<close> would raise
  where the text is no number; that is the \<open>Inl\<close> result.\<close>

definition add_score :: "string \<Rightarrow> leaderboard \<Rightarrow> string \<Rightarrow> raw \<Rightarrow> py_error + bool \<times> leaderboard" where
  "add_score now lb nm r =
     (if \<not> validate_name nm then Inr (False, lb)
      else if \<not> validate_score r then Inr (False, lb)
      else
        (case py_int r of
           Inl e \<Rightarrow> Inl e
         | Inr sc \<Rightarrow>
             (let lb1 =
                (case map_of (players lb) nm of
                   Some p \<Rightarrow> lb\<lparr>players := dict_set (players lb) nm (update_score p sc)\<rparr>
                 | None \<Rightarrow> lb\<lparr>players := dict_set (players lb) nm (Player nm sc)\<rparr>)
              in Inr (True, save_leaderboard now lb1))))"

text \<open>Reading a text file: Python's default text mode turns \<open>\r\n\<close> and \<open>\r\<close> into
  \<open>\n\<close>, and \<open>readlines()\<close> cuts the text after every \<open>\n\<close>, which stays at the end of
  its line.\<close>

fun universal_newlines :: "string \<Rightarrow> string" where
  "universal_newlines [] = []"
| "universal_newlines [c] = (if c = CR then [LF] else [c])"
| "universal_newlines (c # d # cs) =
     (if c = CR \<and> d = LF then LF # universal_newlines cs
      else if c = CR then LF # universal_newlines (d # cs)
      else c # universal_newlines (d # cs))"

fun lines_acc :: "string \<Rightarrow> string \<Rightarrow> string list" where
  "lines_acc acc [] = (if acc = [] then [] else [acc])"
| "lines_acc acc (c # cs) =
     (if c = LF then (acc @ [c]) # lines_acc [] cs else lines_acc (acc @ [c]) cs)"

definition readlines :: "string \<Rightarrow> string list" where
  "readlines txt = lines_acc [] (universal_newlines txt)"

text \<open>The body of the loop of \<open>load_leaderboard\<close> for one line that is not blank:
  \<open>parts[i]\<close> raises \<open>IndexError\<close> where the line has too few fields, \<open>int\<close> raises
  \<open>ValueError\<close>; the first exception in the order of evaluation wins.\<close>

definition index :: "'a list \<Rightarrow> nat \<Rightarrow> py_error + 'a" where
  "index xs i = (if i < length xs then Inr (xs ! i) else Inl IndexError)"

definition int_field :: "string list \<Rightarrow> nat \<Rightarrow> py_error + int" where
  "int_field parts i = (case index parts i of Inl e \<Rightarrow> Inl e | Inr s \<Rightarrow> int_of_str s)"

fun map_int :: "string list \<Rightarrow> py_error + int list" where
  "map_int [] = Inr []"
| "map_int (s # ss) =
     (case int_of_str s of
        Inl e \<Rightarrow> Inl e
      | Inr i \<Rightarrow> (case map_int ss of Inl e \<Rightarrow> Inl e | Inr is \<Rightarrow> Inr (i # is)))"

definition parse_line :: "string \<Rightarrow> py_error + player" where
  "parse_line line =
     (let parts = py_split CHR ''|'' (py_strip line)
      in case index parts 0 of Inl e \<Rightarrow> Inl e | Inr nm \<Rightarrow>
         (case int_field parts 1 of Inl e \<Rightarrow> Inl e | Inr sc \<Rightarrow>
         (case int_field parts 2 of Inl e \<Rightarrow> Inl e | Inr gp \<Rightarrow>
         (case int_field parts 3 of Inl e \<Rightarrow> Inl e | Inr bs \<Rightarrow>
         (case index parts 4 of Inl e \<Rightarrow> Inl e | Inr h \<Rightarrow>
         (case map_int (py_split CHR '','' h) of Inl e \<Rightarrow> Inl e | Inr hist \<Rightarrow>
            Inr ((Player nm sc)\<lparr>games_played := gp, best_score := bs,
                                score_history := hist\<rparr>)))))))"

text \<open>The loop over the lines. It stores each player in \<open>self.players\<close> as soon as the
  line is parsed; an exception leaves the loop, and the \<open>except\<close> clause around it only
  prints a message. The result is the dictionary as the loop leaves it, and the exception
  if there was one.\<close>

fun load_lines :: "player dict \<Rightarrow> string list \<Rightarrow> player dict \<times> py_error option" where
  "load_lines d [] = (d, None)"
| "load_lines d (line # ls) =
     (if py_strip line = [] then load_lines d ls
      else (case parse_line line of
              Inl e \<Rightarrow> (d, Some e)
            | Inr p \<Rightarrow> load_lines (dict_set d (name p) p) ls))"

text \<open>\<open>Leaderboard.load_leaderboard(self)\<close>, with the message it prints as the second
  component.\<close>

datatype load_report = NoFile | Loaded | LoadError py_error

definition load_leaderboard :: "leaderboard \<Rightarrow> leaderboard \<times> load_report" where
  "load_leaderboard lb =
     (case disk lb of
        None \<Rightarrow> (lb, NoFile)
      | Some txt \<Rightarrow>
          (case load_lines (players lb) (drop 2 (readlines txt)) of
             (d, None) \<Rightarrow> (lb\<lparr>players := d\<rparr>, Loaded)
           | (d, Some e) \<Rightarrow> (lb\<lparr>players := d\<rparr>, LoadError e)))"

text \<open>\<open>Leaderboard.__init__(self)\<close>, run in a world where the file holds \<open>d\<close>.\<close>

definition Leaderboard :: "string option \<Rightarrow> leaderboard" where
  "Leaderboard d = fst (load_leaderboard \<lparr>players = [], disk = d\<rparr>)"

section \<open>Predicates of the specification and notions of the proofs\<close>

text \<open>The invariants of a player record: the history is not empty, it has one entry per
  game, the best score is its maximum and the current score is its last entry.\<close>

definition player_inv :: "player \<Rightarrow> bool" where
  "player_inv p =
     (score_history p \<noteq> []
      \<and> int (length (score_history p)) = games_played p
      \<and> best_score p = Max (set (score_history p))
      \<and> score p = last (score_history p))"

text \<open>The dictionaries that the program builds: the keys are distinct, every player is stored
  under its own name, and no history is empty.\<close>

definition wf_players :: "player dict \<Rightarrow> bool" where
  "wf_players d =
     (distinct (map fst d) \<and> (\<forall>(k, p) \<in> set d. name p = k \<and> score_history p \<noteq> []))"

text \<open>The names that the file format can hold: the separator \<open>|\<close> and line breaks do not
  occur in the name, and the name does not begin with white space (which \<open>line.strip()\<close>
  would remove).\<close>

definition storable :: "string \<Rightarrow> bool" where
  "storable nm =
     (CHR ''|'' \<notin> set nm \<and> LF \<notin> set nm \<and> CR \<notin> set nm
      \<and> (case nm of [] \<Rightarrow> True | c # cs \<Rightarrow> \<not> is_space c))"

text \<open>The integers that \<open>str\<close> prints and \<open>int\<close> reads back, and the players whose
  numbers are all of this kind.\<close>

definition digits_ok :: "int \<Rightarrow> bool" where
  "digits_ok i = (length (str_nat (nat \<bar>i\<bar>)) \<le> max_str_digits)"

definition printable :: "player \<Rightarrow> bool" where
  "printable p =
     (digits_ok (score p) \<and> digits_ok (games_played p) \<and> digits_ok (best_score p)
      \<and> list_all digits_ok (score_history p))"

text \<open>The line of a player whose numbers are printed in decimal, and the text of a file
  made of the header and such lines for the ten best players.\<close>

definition player_line :: "player \<Rightarrow> string" where
  "player_line p =
     name p @ ''|'' @ str_int (score p) @ ''|'' @ str_int (games_played p) @ ''|''
     @ str_int (best_score p) @ ''|'' @ py_join '','' (map str_int (score_history p)) @ [LF]"

definition file_text :: "string \<Rightarrow> leaderboard \<Rightarrow> string" where
  "file_text now lb = concat (header_lines now @ map player_line (get_top_players lb 10))"

text \<open>A text without line feed and carriage return.\<close>

definition no_linebreak :: "string \<Rightarrow> bool" where
  "no_linebreak s = (LF \<notin> set s \<and> CR \<notin> set s)"

text \<open>A player as an entry of the dictionary, with the streak set to 0.\<close>

definition reset_streak :: "player \<Rightarrow> string \<times> player" where
  "reset_streak p = (name p, p\<lparr>current_streak := 0\<rparr>)"

text \<open>The value of a string of decimal digits read after \<open>acc\<close>.\<close>

definition digits_value :: "nat \<Rightarrow> string \<Rightarrow> nat" where
  "digits_value acc cs = foldl (\<lambda>a c. a * 10 + digit_val c) acc cs"

text \<open>The characters of a printed integer: digits and the minus sign.\<close>

definition num_char :: "char \<Rightarrow> bool" where
  "num_char c = (is_digit c \<or> c = CHR ''-'')"

text \<open>The history field of a line.\<close>

definition history_text :: "int list \<Rightarrow> string" where
  "history_text h = py_join '','' (map str_int h)"

text \<open>The line of a player without its final line feed.\<close>

definition player_body :: "player \<Rightarrow> string" where
  "player_body p =
     name p @ ''|'' @ str_int (score p) @ ''|'' @ str_int (games_played p) @ ''|''
     @ str_int (best_score p) @ ''|'' @ py_join '','' (map str_int (score_history p))"

text \<open>The two header lines without their final line feeds.\<close>

definition header_bodies :: "string \<Rightarrow> string list" where
  "header_bodies now = [''Leaderboard - Updated: '' @ now, replicate 60 CHR ''='']"

section \<open>Player records\<close>

lemma player_inv_Player: "player_inv (Player nm sc)"
  by (simp add: player_inv_def Player_def)

lemma player_inv_update_score:
  assumes "player_inv p"
  shows "player_inv (update_score p x)"
proof -
  from assms have ne: "score_history p \<noteq> []"
    and len: "int (length (score_history p)) = games_played p"
    and best: "best_score p = Max (set (score_history p))"
    by (simp_all add: player_inv_def)
  have mx: "Max (set (score_history p @ [x])) = max x (best_score p)"
    using ne best by simp
  show ?thesis
    using ne len mx by (auto simp: player_inv_def update_score_def Let_def max_def)
qed

lemma player_inv_updates: "player_inv p \<Longrightarrow> player_inv (foldl update_score p xs)"
  by (induction xs arbitrary: p) (simp_all add: player_inv_update_score)

text \<open>
  C3: an update whose new score is strictly greater than the best score before it adds one
  to the streak and makes the new score the best score; any other update sets the streak to
  0. In particular a new score above the previous current score that does not beat the best
  score sets the streak to 0.
\<close>

theorem update_score_streak:
  "current_streak (update_score p x) = (if x > best_score p then current_streak p + 1 else 0)
   \<and> best_score (update_score p x) = (if x > best_score p then x else best_score p)
   \<and> (score p < x \<and> x \<le> best_score p \<longrightarrow> current_streak (update_score p x) = 0)"
  by (simp add: update_score_def Let_def)

theorem update_score_streak_witness:
  "score (update_score (Player ''Alice'' 100) 50) < 80
   \<and> 80 \<le> best_score (update_score (Player ''Alice'' 100) 50)
   \<and> current_streak (update_score (update_score (Player ''Alice'' 100) 50) 80) = 0
   \<and> current_streak (update_score (update_score (Player ''Alice'' 100) 50) 200) = 1"
  using update_score_streak [of "update_score (Player ''Alice'' 100) 50" 80]
    update_score_streak [of "update_score (Player ''Alice'' 100) 50" 200]
  by (simp add: update_score_def Player_def Let_def)

text \<open>
  C4: a record made by \<open>Player\<close> satisfies the four invariants (history not empty, its
  length equal to \<open>games_played\<close>, \<open>best_score\<close> its maximum, \<open>score\<close> its last entry),
  \<open>update_score\<close> keeps them, and so they hold after any sequence of updates.
\<close>

theorem player_invariants:
  "player_inv (Player nm sc)
   \<and> (\<forall>p x. player_inv p \<longrightarrow> player_inv (update_score p x))
   \<and> player_inv (foldl update_score (Player nm sc) xs)"
  by (simp add: player_inv_Player player_inv_update_score player_inv_updates)

theorem player_invariants_witness:
  "player_inv (Player ''Alice'' 100)
   \<and> player_inv (update_score (Player ''Alice'' 100) 50)
   \<and> foldl update_score (Player ''Alice'' 100) [50, 200] =
       \<lparr>name = ''Alice'', score = 200, games_played = 3, best_score = 200,
        score_history = [100, 50, 200], current_streak = 1\<rparr>
   \<and> player_inv \<lparr>name = ''Alice'', score = 200, games_played = 3, best_score = 200,
        score_history = [100, 50, 200], current_streak = 1\<rparr>"
proof -
  have e: "foldl update_score (Player ''Alice'' 100) [50, 200] =
       \<lparr>name = ''Alice'', score = 200, games_played = 3, best_score = 200,
        score_history = [100, 50, 200], current_streak = 1\<rparr>"
    by (simp add: update_score_def Player_def Let_def)
  from player_invariants [of "''Alice''" 100 "[50, 200]"]
  show ?thesis unfolding e by blast
qed

section \<open>Printing and reading integers\<close>

subsection \<open>Digits\<close>

lemma is_digit_digit_char: "d < 10 \<Longrightarrow> is_digit (digit_char d)"
  by (simp add: is_digit_def digit_char_def)

lemma digit_val_digit_char: "d < 10 \<Longrightarrow> digit_val (digit_char d) = d"
  by (simp add: digit_val_def digit_char_def)


lemma str_nat_digits: "c \<in> set (str_nat n) \<Longrightarrow> is_digit c"
proof (induction n arbitrary: c rule: str_nat.induct)
  case (1 n)
  show ?case
  proof (cases "n < 10")
    case True
    with "1.prems" show ?thesis
      by (subst (asm) str_nat.simps) (simp add: is_digit_digit_char)
  next
    case False
    with "1.prems" have "c \<in> set (str_nat (n div 10)) \<or> c = digit_char (n mod 10)"
      by (subst (asm) str_nat.simps) auto
    with False "1.IH" show ?thesis
      by (auto simp: is_digit_digit_char)
  qed
qed

lemma str_nat_not_Nil: "str_nat n \<noteq> []"
  by (subst str_nat.simps) simp

lemma parse_digits_all_digits:
  "\<forall>c \<in> set cs. is_digit c \<Longrightarrow> parse_digits acc cs = Some (digits_value acc cs)"
  by (induction acc cs rule: parse_digits.induct) (simp_all add: digits_value_def)

lemma digits_value_str_nat: "digits_value 0 (str_nat n) = n"
proof (induction n rule: str_nat.induct)
  case (1 n)
  show ?case
  proof (cases "n < 10")
    case True
    then show ?thesis
      by (subst str_nat.simps) (simp add: digits_value_def digit_val_digit_char)
  next
    case False
    with "1.IH" have "digits_value 0 (str_nat (n div 10)) = n div 10" by simp
    with False show ?thesis
      by (subst str_nat.simps) (simp add: digits_value_def digit_val_digit_char)
  qed
qed

lemma length_str_nat_le: "n < 10 ^ k \<Longrightarrow> 0 < k \<Longrightarrow> length (str_nat n) \<le> k"
proof (induction k arbitrary: n)
  case 0
  then show ?case by simp
next
  case (Suc k)
  show ?case
  proof (cases "n < 10")
    case True
    then show ?thesis by (subst str_nat.simps) simp
  next
    case False
    with Suc.prems have k: "0 < k" by (cases k) auto
    from Suc.prems have "n div 10 < 10 ^ k" by (simp add: less_mult_imp_div_less mult.commute)
    from Suc.IH [OF this k] have "length (str_nat (n div 10)) \<le> k" .
    with False show ?thesis by (subst str_nat.simps) simp
  qed
qed

lemma digits_ok_small: "\<bar>i\<bar> < 100000 \<Longrightarrow> digits_ok i"
proof -
  assume "\<bar>i\<bar> < 100000"
  then have "nat \<bar>i\<bar> < 10 ^ 5" by simp
  then have "length (str_nat (nat \<bar>i\<bar>)) \<le> 5" by (rule length_str_nat_le) simp
  then show ?thesis by (simp add: digits_ok_def max_str_digits_def)
qed

lemma parse_unsigned_str_nat:
  "parse_unsigned (str_nat n) = (if length (str_nat n) \<le> max_str_digits then Some n else None)"
proof -
  obtain c cs where e: "str_nat n = c # cs"
    using str_nat_not_Nil [of n] by (cases "str_nat n") auto
  have dig: "\<forall>x \<in> set (c # cs). is_digit x"
    using str_nat_digits [of _ n] e by auto
  have "digits_value (digit_val c) cs = digits_value 0 (c # cs)"
    by (simp add: digits_value_def)
  also have "\<dots> = n"
    using digits_value_str_nat [of n] e by simp
  finally have v: "digits_value (digit_val c) cs = n" .
  from dig have "parse_digits (digit_val c) cs = Some (digits_value (digit_val c) cs)"
    by (intro parse_digits_all_digits) simp
  moreover from dig have "filter is_digit (c # cs) = c # cs"
    by (intro filter_True) simp
  ultimately show ?thesis
    using dig v by (simp add: parse_unsigned_def e)
qed

subsection \<open>Characters of a printed integer\<close>

lemma str_int_num_char: "c \<in> set (str_int i) \<Longrightarrow> num_char c"
  by (auto simp: str_int_def num_char_def dest: str_nat_digits split: if_splits)

lemma str_int_not_Nil: "str_int i \<noteq> []"
  by (simp add: str_int_def str_nat_not_Nil)

lemma num_char_not_space: "num_char c \<Longrightarrow> \<not> is_space c"
  by (auto simp: num_char_def is_digit_def is_space_def Let_def)

lemma num_char_not_int_space: "num_char c \<Longrightarrow> \<not> is_int_space c"
  by (auto simp: num_char_def is_digit_def is_int_space_def Let_def)

lemma num_char_plain:
  "num_char c \<Longrightarrow> c \<noteq> CHR ''|'' \<and> c \<noteq> CHR '','' \<and> c \<noteq> LF \<and> c \<noteq> CR"
  by (auto simp: num_char_def is_digit_def LF_def CR_def)

lemma last_str_nat_digit: "is_digit (last (str_nat n))"
  using str_nat_digits [of "last (str_nat n)" n] str_nat_not_Nil [of n] by simp

lemma last_str_int_digit: "is_digit (last (str_int i))"
  by (simp add: str_int_def str_nat_not_Nil last_str_nat_digit)

subsection \<open>strip\<close>

lemma py_strip_id:
  assumes "s \<noteq> []" and "\<not> is_space (hd s)" and "\<not> is_space (last s)"
  shows "py_strip s = s"
proof -
  from assms have 1: "dropWhile is_space s = s"
    by (cases s) auto
  from assms have 2: "dropWhile is_space (rev s) = rev s"
    by (cases "rev s") (auto simp: hd_rev)
  show ?thesis by (simp add: py_strip_def 1 2)
qed

lemma py_strip_snoc_LF:
  assumes "s \<noteq> []" and "\<not> is_space (hd s)" and "\<not> is_space (last s)"
  shows "py_strip (s @ [LF]) = s"
proof -
  have sp: "is_space LF" by (simp add: is_space_def LF_def)
  from assms have 1: "dropWhile is_space (s @ [LF]) = s @ [LF]"
    by (cases s) auto
  from assms have 2: "dropWhile is_space (rev s) = rev s"
    by (cases "rev s") (auto simp: hd_rev)
  show ?thesis by (simp add: py_strip_def 1 2 sp)
qed

lemma strip_padded:
  assumes "\<forall>c \<in> set ws1. P c" and "\<forall>c \<in> set ws2. P c"
    and "s \<noteq> []" and "\<not> P (hd s)" and "\<not> P (last s)"
  shows "rev (dropWhile P (rev (dropWhile P (ws1 @ s @ ws2)))) = s"
proof -
  have "dropWhile P (ws1 @ s @ ws2) = dropWhile P (s @ ws2)"
    using assms(1) by (simp add: dropWhile_append2)
  also have "\<dots> = s @ ws2"
    using assms(3,4) by (cases s) auto
  finally have 1: "dropWhile P (ws1 @ s @ ws2) = s @ ws2" .
  have "dropWhile P (rev ws2 @ rev s) = dropWhile P (rev s)"
    using assms(2) by (intro dropWhile_append2) auto
  then have "dropWhile P (rev (s @ ws2)) = dropWhile P (rev s)"
    by simp
  also have "\<dots> = rev s"
    using assms(3,5) by (cases "rev s") (auto simp: hd_rev)
  finally show ?thesis by (simp add: 1)
qed

lemma set_dropWhile_cases: "c \<in> set s \<Longrightarrow> c \<in> set (dropWhile P s) \<or> P c"
  by (induction s) (auto split: if_splits)

lemma int_strip_chars: "c \<in> set s \<Longrightarrow> c \<in> set (int_strip s) \<or> is_int_space c"
proof -
  assume "c \<in> set s"
  then have "c \<in> set (dropWhile is_int_space s) \<or> is_int_space c"
    by (rule set_dropWhile_cases)
  then show ?thesis
    using set_dropWhile_cases [of c "rev (dropWhile is_int_space s)" is_int_space]
    by (auto simp: int_strip_def)
qed

lemma parse_digits_chars:
  "parse_digits acc cs = Some v \<Longrightarrow> c \<in> set cs \<Longrightarrow> is_digit c \<or> c = CHR ''_''"
  by (induction acc cs arbitrary: v rule: parse_digits.induct) (auto split: if_splits)

lemma parse_unsigned_chars:
  "parse_unsigned cs = Some v \<Longrightarrow> c \<in> set cs \<Longrightarrow> is_digit c \<or> c = CHR ''_''"
  by (cases cs) (auto simp: parse_unsigned_def dest: parse_digits_chars
      split: if_splits option.splits)

lemma int_of_str_chars:
  assumes "int_of_str s = Inr v" and "c \<in> set s"
  shows "is_digit c \<or> c = CHR ''_'' \<or> c = CHR ''+'' \<or> c = CHR ''-'' \<or> is_int_space c"
proof (cases "c \<in> set (int_strip s)")
  case False
  with assms(2) show ?thesis using int_strip_chars by blast
next
  case True
  then obtain d ds where e: "int_strip s = d # ds" by (cases "int_strip s") auto
  show ?thesis
  proof (cases "d = CHR ''-'' \<or> d = CHR ''+''")
    case True
    with assms(1) e obtain n where "parse_unsigned ds = Some n"
      by (auto simp: int_of_str_def split: if_splits option.splits)
    with True \<open>c \<in> set (int_strip s)\<close> e show ?thesis
      using parse_unsigned_chars [of ds n c] by auto
  next
    case False
    with assms(1) e obtain n where "parse_unsigned (d # ds) = Some n"
      by (auto simp: int_of_str_def split: if_splits option.splits)
    with \<open>c \<in> set (int_strip s)\<close> e show ?thesis
      using parse_unsigned_chars [of "d # ds" n c] by auto
  qed
qed

lemma int_of_str_blank: "\<forall>c \<in> set s. is_int_space c \<Longrightarrow> int_of_str s = Inl ValueError"
proof -
  assume "\<forall>c \<in> set s. is_int_space c"
  then have d: "dropWhile is_int_space s = []" by simp
  show ?thesis unfolding int_of_str_def int_strip_def d by simp
qed

lemma int_of_str_too_long:
  assumes "\<forall>c \<in> set s. is_digit c" and "length s > max_str_digits"
  shows "int_of_str s = Inl ValueError"
proof -
  from assms(2) obtain c cs where e: "s = c # cs" by (cases s) auto
  have ns: "\<not> is_int_space x" if "x \<in> set s" for x
    using that assms(1) num_char_not_int_space [of x] by (auto simp: num_char_def)
  have "s \<noteq> []" using e by simp
  then have "\<not> is_int_space (hd s)" and "\<not> is_int_space (last s)"
    using ns by simp_all
  with \<open>s \<noteq> []\<close> have "rev (dropWhile is_int_space (rev (dropWhile is_int_space ([] @ s @ [])))) = s"
    by (intro strip_padded) simp_all
  then have st: "int_strip s = s" by (simp add: int_strip_def)
  from assms(1) e have c: "is_digit c" by simp
  then have sign: "c \<noteq> CHR ''-''" "c \<noteq> CHR ''+''" by (auto simp: is_digit_def)
  from assms(1) e have "parse_digits (digit_val c) cs = Some (digits_value (digit_val c) cs)"
    by (intro parse_digits_all_digits) simp
  moreover from assms(1) have "filter is_digit s = s" by (intro filter_True) simp
  ultimately have "parse_unsigned (c # cs) = None"
    using c assms(2) e by (simp add: parse_unsigned_def)
  moreover from st e have "int_strip (c # cs) = c # cs" by simp
  ultimately show ?thesis
    using sign by (simp add: int_of_str_def e)
qed

lemma int_of_str_padded:
  assumes "\<forall>c \<in> set ws1. is_int_space c" and "\<forall>c \<in> set ws2. is_int_space c"
  shows "int_of_str (ws1 @ str_int i @ ws2) = (if digits_ok i then Inr i else Inl ValueError)"
proof -
  have hd_ok: "\<not> is_int_space (hd (str_int i))"
    using str_int_num_char [of "hd (str_int i)" i] str_int_not_Nil [of i]
    by (auto dest: num_char_not_int_space)
  have last_ok: "\<not> is_int_space (last (str_int i))"
    using last_str_int_digit [of i] num_char_not_int_space [of "last (str_int i)"]
    by (auto simp: num_char_def)
  have st: "int_strip (ws1 @ str_int i @ ws2) = str_int i"
    unfolding int_strip_def
    using assms str_int_not_Nil hd_ok last_ok by (rule strip_padded)
  show ?thesis
  proof (cases "i < 0")
    case True
    then have "str_int i = CHR ''-'' # str_nat (nat (- i))"
      by (simp add: str_int_def)
    moreover from True have "nat \<bar>i\<bar> = nat (- i)" by simp
    ultimately show ?thesis
      using True unfolding int_of_str_def st
      by (simp add: parse_unsigned_str_nat digits_ok_def)
  next
    case False
    obtain c cs where e: "str_nat (nat i) = c # cs"
      using str_nat_not_Nil [of "nat i"] by (cases "str_nat (nat i)") auto
    have "is_digit c" using str_nat_digits [of c "nat i"] e by simp
    then have c: "c \<noteq> CHR ''-''" "c \<noteq> CHR ''+''"
      by (auto simp: is_digit_def)
    have "parse_unsigned (c # cs)
        = (if length (str_nat (nat i)) \<le> max_str_digits then Some (nat i) else None)"
      using parse_unsigned_str_nat [of "nat i"] e by simp
    moreover from False e have "str_int i = c # cs"
      by (simp add: str_int_def)
    moreover from False have "nat \<bar>i\<bar> = nat i" by simp
    ultimately show ?thesis
      using False c unfolding int_of_str_def st by (simp add: digits_ok_def)
  qed
qed

lemma int_of_str_str_int: "digits_ok i \<Longrightarrow> int_of_str (str_int i) = Inr i"
  using int_of_str_padded [of "[]" "[]" i] by simp

lemma py_str_ok: "digits_ok i \<Longrightarrow> py_str i = Inr (str_int i)"
  by (simp add: py_str_def digits_ok_def)

lemma map_str_ok: "list_all digits_ok h \<Longrightarrow> map_str h = Inr (map str_int h)"
  by (induction h) (simp_all add: py_str_ok)

section \<open>Validation and adding scores\<close>

lemma validate_score_parsed: "validate_score r \<Longrightarrow> \<exists>sc. py_int r = Inr sc \<and> 0 \<le> sc \<and> sc \<le> 10000"
  by (auto simp: validate_score_def split: sum.splits if_splits)

lemma add_score_accepts:
  assumes "validate_name nm" and "validate_score r"
  shows "\<exists>lb'. add_score now lb nm r = Inr (True, lb')"
proof -
  from validate_score_parsed [OF assms(2)] obtain sc where "py_int r = Inr sc" by blast
  with assms show ?thesis by (simp add: add_score_def Let_def)
qed

lemma add_score_returns: "\<exists>b lb'. add_score now lb nm r = Inr (b, lb')"
proof (cases "validate_name nm \<and> validate_score r")
  case True
  then show ?thesis
    using add_score_accepts [of nm r now lb] by blast
next
  case False
  then have "add_score now lb nm r = Inr (False, lb)"
    by (auto simp: add_score_def)
  then show ?thesis by blast
qed

text \<open>
  C5: if \<open>validate_name\<close> or \<open>validate_score\<close> rejects its input, \<open>add_score\<close> returns
  \<open>False\<close> and leaves the leaderboard (players and file) as it was. Adding \<open>10001\<close> for
  Alice, \<open>100\<close> for the empty name and \<open>100\<close> for a name of 21 characters all fail so;
  adding \<open>10000\<close> for Alice returns \<open>True\<close>.
\<close>

theorem add_score_rejects:
  "(\<not> validate_name nm \<or> \<not> validate_score r \<longrightarrow> add_score now lb nm r = Inr (False, lb))
   \<and> add_score now lb ''Alice'' (PyStr ''10001'') = Inr (False, lb)
   \<and> add_score now lb '''' (PyStr ''100'') = Inr (False, lb)
   \<and> add_score now lb (replicate 21 CHR ''A'') (PyStr ''100'') = Inr (False, lb)
   \<and> (\<exists>lb'. add_score now lb ''Alice'' (PyStr ''10000'') = Inr (True, lb'))"
proof -
  have rej: "\<not> validate_name nm \<or> \<not> validate_score r \<longrightarrow> add_score now lb nm r = Inr (False, lb)"
    by (simp add: add_score_def)
  have alice: "validate_name ''Alice''" by code_simp
  have high: "\<not> validate_score (PyStr ''10001'')" by code_simp
  have top: "validate_score (PyStr ''10000'')" by code_simp
  have empty: "\<not> validate_name ''''" by (simp add: validate_name_def)
  have long: "\<not> validate_name (replicate 21 CHR ''A'')" by (simp add: validate_name_def)
  from high have 1: "add_score now lb ''Alice'' (PyStr ''10001'') = Inr (False, lb)"
    by (simp add: add_score_def)
  from empty have 2: "add_score now lb '''' (PyStr ''100'') = Inr (False, lb)"
    by (simp add: add_score_def)
  from long have 3: "add_score now lb (replicate 21 CHR ''A'') (PyStr ''100'') = Inr (False, lb)"
    by (simp add: add_score_def)
  from alice top have 4: "\<exists>lb'. add_score now lb ''Alice'' (PyStr ''10000'') = Inr (True, lb')"
    by (rule add_score_accepts)
  from rej 1 2 3 4 show ?thesis by blast
qed

theorem add_score_rejects_witness:
  "\<not> validate_score (PyStr ''12a'')
   \<and> add_score ''2026-01-01 12:00:00'' \<lparr>players = [(''Bob'', Player ''Bob'' 7)], disk = None\<rparr>
        ''Bob'' (PyStr ''12a'')
      = Inr (False, \<lparr>players = [(''Bob'', Player ''Bob'' 7)], disk = None\<rparr>)
   \<and> \<not> validate_score (PyStr [CHR 0x1C, CHR ''5''])
   \<and> add_score ''2026-01-01 12:00:00'' \<lparr>players = [], disk = None\<rparr>
        ''Alice'' (PyStr [CHR 0x1C, CHR ''5''])
      = Inr (False, \<lparr>players = [], disk = None\<rparr>)"
proof -
  have h: "\<not> validate_score (PyStr ''12a'')" by code_simp
  have k: "\<not> validate_score (PyStr [CHR 0x1C, CHR ''5''])" by code_simp
  from add_score_rejects [of "''Bob''" "PyStr ''12a''" "''2026-01-01 12:00:00''"
      "\<lparr>players = [(''Bob'', Player ''Bob'' 7)], disk = None\<rparr>"]
    add_score_rejects [of "''Alice''" "PyStr [CHR 0x1C, CHR ''5'']" "''2026-01-01 12:00:00''"
      "\<lparr>players = [], disk = None\<rparr>"] h k
  show ?thesis by blast
qed

text \<open>
  C6: \<open>validate_score\<close> returns \<open>True\<close> exactly when its input can be read as an integer
  and that integer is neither negative nor above 10000; it returns \<open>False\<close> when the input
  is no integer and when the integer is out of that range. What can be read: an integer
  itself; the decimal text of an integer, also with white space around it; no text that is
  blank or holds a character that is neither a digit, a sign, an underscore nor white
  space. It is a function of its input alone: it neither reads nor changes the
  leaderboard.
\<close>

theorem validate_score_spec:
  "validate_score r = (\<exists>v. py_int r = Inr v \<and> 0 \<le> v \<and> v \<le> 10000)
   \<and> validate_score (PyInt i) = (0 \<le> i \<and> i \<le> 10000)
   \<and> ((\<forall>c \<in> set ws1. is_int_space c) \<and> (\<forall>c \<in> set ws2. is_int_space c) \<longrightarrow>
        validate_score (PyStr (ws1 @ str_int i @ ws2)) = (0 \<le> i \<and> i \<le> 10000))
   \<and> ((\<exists>c \<in> set s. \<not> is_digit c \<and> c \<noteq> CHR ''_'' \<and> c \<noteq> CHR ''+'' \<and> c \<noteq> CHR ''-''
          \<and> \<not> is_int_space c) \<longrightarrow> \<not> validate_score (PyStr s))
   \<and> ((\<forall>c \<in> set s. is_int_space c) \<longrightarrow> \<not> validate_score (PyStr s))"
proof -
  have 1: "validate_score r = (\<exists>v. py_int r = Inr v \<and> 0 \<le> v \<and> v \<le> 10000)" for r
    by (auto simp: validate_score_def split: sum.splits)
  have 2: "validate_score (PyInt i) = (0 \<le> i \<and> i \<le> 10000)"
    by (auto simp: validate_score_def)
  have 3: "validate_score (PyStr (ws1 @ str_int i @ ws2)) = (0 \<le> i \<and> i \<le> 10000)"
    if "\<forall>c \<in> set ws1. is_int_space c" and "\<forall>c \<in> set ws2. is_int_space c"
  proof (cases "digits_ok i")
    case True
    with int_of_str_padded [OF that, of i] show ?thesis
      by (auto simp: validate_score_def)
  next
    case False
    then have "\<not> \<bar>i\<bar> < 100000" using digits_ok_small by blast
    with False int_of_str_padded [OF that, of i] show ?thesis
      by (auto simp: validate_score_def)
  qed
  have 4: "\<not> validate_score (PyStr s)"
    if "\<exists>c \<in> set s. \<not> is_digit c \<and> c \<noteq> CHR ''_'' \<and> c \<noteq> CHR ''+'' \<and> c \<noteq> CHR ''-''
          \<and> \<not> is_int_space c"
    using that int_of_str_chars [of s] by (auto simp: 1)
  have 5: "\<not> validate_score (PyStr s)" if "\<forall>c \<in> set s. is_int_space c"
    using int_of_str_blank [OF that] by (simp add: 1)
  from 1 2 3 4 5 show ?thesis by blast
qed

theorem validate_score_spec_witness:
  "validate_score (PyStr ''10000'') \<and> validate_score (PyStr '' 42 '') \<and> validate_score (PyInt 0)
   \<and> \<not> validate_score (PyStr ''10001'') \<and> \<not> validate_score (PyStr ''-1'')
   \<and> \<not> validate_score (PyStr ''12a'') \<and> \<not> validate_score (PyStr [CHR 0x1C, CHR ''5''])
   \<and> \<not> validate_score (PyStr (replicate 4300 CHR ''0'' @ ''5''))"
proof -
  have 1: "int_of_str ''10000'' = Inr 10000" by code_simp
  have 2: "int_of_str ''10001'' = Inr 10001" by code_simp
  have 3: "int_of_str ''-1'' = Inr (- 1)" by code_simp
  have 4: "int_of_str ''12a'' = Inl ValueError" by code_simp
  have 5: "int_of_str '' 42 '' = Inr 42" by code_simp
  have 6: "int_of_str [CHR 0x1C, CHR ''5''] = Inl ValueError" by code_simp
  have "\<forall>c \<in> set (replicate 4300 CHR ''0'' @ ''5''). is_digit c"
    by (auto simp: is_digit_def)
  moreover have "length (replicate 4300 CHR ''0'' @ ''5'') > max_str_digits"
    by (simp add: max_str_digits_def)
  ultimately have 7: "int_of_str (replicate 4300 CHR ''0'' @ ''5'') = Inl ValueError"
    by (rule int_of_str_too_long)
  show ?thesis
    using validate_score_spec [of "PyStr ''10000''"] validate_score_spec [of "PyStr '' 42 ''"]
      validate_score_spec [of "PyInt 0"] validate_score_spec [of "PyStr ''10001''"]
      validate_score_spec [of "PyStr ''-1''"] validate_score_spec [of "PyStr ''12a''"]
      validate_score_spec [of "PyStr [CHR 0x1C, CHR ''5'']"]
      validate_score_spec [of "PyStr (replicate 4300 CHR ''0'' @ ''5'')"]
    by (simp add: 1 2 3 4 5 6 7)
qed

text \<open>
  C7: \<open>validate_name\<close> returns \<open>False\<close> when the name stripped of surrounding white space
  is empty, \<open>False\<close> when the name as given (not stripped) has more than 20 characters, and
  \<open>True\<close> otherwise.
\<close>

theorem validate_name_spec:
  "validate_name nm = (length (py_strip nm) \<noteq> 0 \<and> length nm \<le> 20)"
  by (auto simp: validate_name_def py_strip_def)

theorem validate_name_spec_witness:
  "validate_name ''Alice'' \<and> \<not> validate_name ''   '' \<and> \<not> validate_name ''''
   \<and> validate_name (replicate 20 CHR ''A'') \<and> \<not> validate_name (replicate 21 CHR ''A'')
   \<and> \<not> validate_name (CHR ''A'' # replicate 20 CHR '' '')"
proof -
  have 1: "py_strip ''Alice'' = ''Alice''" by code_simp
  have 2: "py_strip ''   '' = []" by code_simp
  have 3: "py_strip '''' = []" by code_simp
  have 4: "py_strip (replicate 20 CHR ''A'') = replicate 20 CHR ''A''" by code_simp
  show ?thesis
    using validate_name_spec [of "''Alice''"] validate_name_spec [of "''   ''"]
      validate_name_spec [of "''''"] validate_name_spec [of "replicate 20 CHR ''A''"]
      validate_name_spec [of "replicate 21 CHR ''A''"]
      validate_name_spec [of "CHR ''A'' # replicate 20 CHR '' ''"]
    by (simp add: 1 2 3 4)
qed

section \<open>Ranking\<close>

lemma py_sorted_reverse_stable:
  "filter (\<lambda>y. key y = k) (py_sorted_reverse key xs) = filter (\<lambda>y. key y = k) xs"
  by (simp add: py_sorted_reverse_def rev_filter [symmetric] sort_key_stable)

lemma py_sorted_reverse_desc:
  "sorted_wrt (\<lambda>x y. key x \<ge> key y) (py_sorted_reverse key xs)"
proof -
  have "sorted (map key (sort_key key (rev xs)))" by simp
  then have "sorted_wrt (\<lambda>x y. key x \<le> key y) (sort_key key (rev xs))"
    by (simp add: sorted_wrt_map)
  then show ?thesis
    by (simp add: py_sorted_reverse_def sorted_wrt_rev)
qed

lemma py_sorted_reverse_mset: "mset (py_sorted_reverse key xs) = mset xs"
  by (simp add: py_sorted_reverse_def)

lemma slice_to_take: "\<exists>m. slice_to n xs = take m xs"
  by (auto simp: slice_to_def)

lemma prefix_filter: "prefix xs ys \<Longrightarrow> prefix (filter P xs) (filter P ys)"
  by (auto simp: prefix_def)

lemma sorted_wrt_prefix: "prefix xs ys \<Longrightarrow> sorted_wrt R ys \<Longrightarrow> sorted_wrt R xs"
  by (auto simp: prefix_def sorted_wrt_append)

lemma get_top_players_prefix: "prefix (get_top_players lb n) (sorted_players lb)"
  by (simp add: get_top_players_def slice_to_def take_is_prefix)

text \<open>
  C8: for every leaderboard and every number \<open>n\<close> of players asked for (\<open>n \<ge> 0\<close>),
  \<open>get_top_players\<close> returns at most \<open>n\<close> records; they are sorted by score in descending
  order; they are a prefix of the full collection sorted by score in descending order; and
  players with equal scores stand in the iteration order of the dictionary.
\<close>

theorem get_top_players_ranked:
  "prefix (get_top_players lb n) (sorted_players lb)
   \<and> mset (sorted_players lb) = mset (dict_values (players lb))
   \<and> sorted_wrt (\<lambda>p q. score p \<ge> score q) (sorted_players lb)
   \<and> sorted_wrt (\<lambda>p q. score p \<ge> score q) (get_top_players lb n)
   \<and> (0 \<le> n \<longrightarrow> int (length (get_top_players lb n)) \<le> n)
   \<and> filter (\<lambda>p. score p = k) (sorted_players lb) =
       filter (\<lambda>p. score p = k) (dict_values (players lb))
   \<and> prefix (filter (\<lambda>p. score p = k) (get_top_players lb n))
       (filter (\<lambda>p. score p = k) (dict_values (players lb)))"
proof -
  have pre: "prefix (get_top_players lb n) (sorted_players lb)"
    by (rule get_top_players_prefix)
  have desc: "sorted_wrt (\<lambda>p q. score p \<ge> score q) (sorted_players lb)"
    unfolding sorted_players_def by (rule py_sorted_reverse_desc)
  have stab: "filter (\<lambda>p. score p = k) (sorted_players lb) =
       filter (\<lambda>p. score p = k) (dict_values (players lb))"
    unfolding sorted_players_def by (rule py_sorted_reverse_stable)
  have len: "0 \<le> n \<longrightarrow> int (length (get_top_players lb n)) \<le> n"
    by (auto simp: get_top_players_def slice_to_def)
  have ms: "mset (sorted_players lb) = mset (dict_values (players lb))"
    by (simp add: sorted_players_def py_sorted_reverse_mset)
  from pre desc have desc': "sorted_wrt (\<lambda>p q. score p \<ge> score q) (get_top_players lb n)"
    by (rule sorted_wrt_prefix)
  from prefix_filter [OF pre, of "\<lambda>p. score p = k"] stab
  have stab': "prefix (filter (\<lambda>p. score p = k) (get_top_players lb n))
       (filter (\<lambda>p. score p = k) (dict_values (players lb)))"
    by simp
  from pre ms desc desc' len stab stab' show ?thesis by blast
qed

theorem get_top_players_ranked_witness:
  "(0::int) \<le> 2
   \<and> get_top_players \<lparr>players = [(''A'', Player ''A'' 1), (''B'', Player ''B'' 2),
         (''C'', Player ''C'' 2)], disk = None\<rparr> 2 = [Player ''B'' 2, Player ''C'' 2]
   \<and> int (length [Player ''B'' 2, Player ''C'' 2]) \<le> 2
   \<and> prefix [Player ''B'' 2, Player ''C'' 2]
       (filter (\<lambda>p. score p = 2) [Player ''A'' 1, Player ''B'' 2, Player ''C'' 2])"
proof -
  have e: "get_top_players \<lparr>players = [(''A'', Player ''A'' 1), (''B'', Player ''B'' 2),
         (''C'', Player ''C'' 2)], disk = None\<rparr> 2 = [Player ''B'' 2, Player ''C'' 2]"
    by (simp add: get_top_players_def sorted_players_def py_sorted_reverse_def slice_to_def
        dict_values_def Player_def)
  have f: "filter (\<lambda>p. score p = 2) [Player ''B'' 2, Player ''C'' 2] = [Player ''B'' 2, Player ''C'' 2]"
    by (simp add: Player_def)
  from get_top_players_ranked [of "\<lparr>players = [(''A'', Player ''A'' 1), (''B'', Player ''B'' 2),
         (''C'', Player ''C'' 2)], disk = None\<rparr>" 2 2]
  show ?thesis unfolding e by (simp add: dict_values_def Player_def)
qed

text \<open>The callers pass 5 and 10. For a negative \<open>n\<close> the slice \<open>[:n]\<close> drops records from
  the end: with two players and \<open>n = -1\<close> one record is returned.\<close>

lemma get_top_players_negative_slice:
  "\<not> int (length (get_top_players
        \<lparr>players = [(''A'', Player ''A'' 1), (''B'', Player ''B'' 2)], disk = None\<rparr> (- 1))) \<le> - 1"
  by (simp add: get_top_players_def slice_to_def sorted_players_def py_sorted_reverse_def
      dict_values_def)

section \<open>Lines of the file\<close>

subsection \<open>split and join\<close>

lemma split_acc_no_sep: "sep \<notin> set w \<Longrightarrow> split_acc sep acc w = [acc @ w]"
  by (induction w arbitrary: acc) auto

lemma split_acc_sep:
  "sep \<notin> set w \<Longrightarrow> split_acc sep acc (w @ sep # rest) = (acc @ w) # split_acc sep [] rest"
  by (induction w arbitrary: acc) auto

lemma split_acc_not_Nil: "split_acc sep acc s \<noteq> []"
  by (induction s arbitrary: acc) auto

lemma split_join:
  "ws \<noteq> [] \<Longrightarrow> \<forall>w \<in> set ws. sep \<notin> set w \<Longrightarrow> split_acc sep [] (py_join [sep] ws) = ws"
proof (induction "[sep]" ws rule: py_join.induct)
  case 1
  then show ?case by simp
next
  case (2 x)
  then show ?case by (simp add: split_acc_no_sep)
next
  case (3 x y ys)
  then have "split_acc sep [] (py_join [sep] (y # ys)) = y # ys" by simp
  moreover from "3.prems" have "sep \<notin> set x" by simp
  ultimately show ?case
    using split_acc_sep [of sep x "[]" "py_join [sep] (y # ys)"] by simp
qed

lemma set_py_join: "set (py_join sep ws) \<subseteq> set sep \<union> \<Union> (set ` set ws)"
  by (induction sep ws rule: py_join.induct) auto

lemma py_join_last:
  "ws \<noteq> [] \<Longrightarrow> last ws \<noteq> [] \<Longrightarrow> py_join sep ws \<noteq> [] \<and> last (py_join sep ws) = last (last ws)"
  by (induction sep ws rule: py_join.induct) auto

lemma map_int_str_int: "list_all digits_ok h \<Longrightarrow> map_int (map str_int h) = Inr h"
  by (induction h) (simp_all add: int_of_str_str_int)

lemma map_int_length: "map_int ss = Inr h \<Longrightarrow> length h = length ss"
  by (induction ss arbitrary: h) (auto split: sum.splits)

subsection \<open>The history field\<close>

lemma history_text_chars: "c \<in> set (history_text h) \<Longrightarrow> num_char c \<or> c = CHR '',''"
  using set_py_join [of "'',''" "map str_int h"]
  by (auto simp: history_text_def dest: str_int_num_char)

lemma history_text_plain:
  "CHR ''|'' \<notin> set (history_text h) \<and> LF \<notin> set (history_text h) \<and> CR \<notin> set (history_text h)"
  using history_text_chars [of _ h] num_char_plain
  by (auto simp: LF_def CR_def)

lemma history_text_last:
  assumes "h \<noteq> []"
  shows "history_text h \<noteq> [] \<and> is_digit (last (history_text h))"
proof -
  have "map str_int h \<noteq> []" using assms by simp
  moreover have "last (map str_int h) \<noteq> []"
    using assms by (simp add: last_map str_int_not_Nil)
  ultimately have "py_join '','' (map str_int h) \<noteq> []
      \<and> last (py_join '','' (map str_int h)) = last (last (map str_int h))"
    by (rule py_join_last)
  then show ?thesis
    using assms by (simp add: history_text_def last_map last_str_int_digit)
qed

lemma history_text_parse:
  assumes "h \<noteq> []" and "list_all digits_ok h"
  shows "map_int (py_split CHR '','' (history_text h)) = Inr h"
proof -
  have "\<forall>w \<in> set (map str_int h). CHR '','' \<notin> set w"
    using str_int_num_char num_char_plain by fastforce
  with assms(1) have "split_acc CHR '','' [] (py_join [CHR '',''] (map str_int h)) = map str_int h"
    by (intro split_join) simp_all
  then show ?thesis
    using assms(2) by (simp add: py_split_def history_text_def map_int_str_int)
qed

lemma str_int_plain:
  "CHR ''|'' \<notin> set (str_int i) \<and> LF \<notin> set (str_int i) \<and> CR \<notin> set (str_int i)"
  using str_int_num_char [of _ i] num_char_plain by blast

subsection \<open>One line of the file\<close>

lemma player_line_body: "player_line p = player_body p @ [LF]"
  by (simp add: player_line_def player_body_def)

lemma player_body_split:
  assumes "CHR ''|'' \<notin> set (name p)"
  shows "py_split CHR ''|'' (player_body p) =
     [name p, str_int (score p), str_int (games_played p), str_int (best_score p),
      history_text (score_history p)]"
proof -
  have 1: "CHR ''|'' \<notin> set (str_int i)" for i
    using str_int_plain by simp
  have 2: "CHR ''|'' \<notin> set (history_text (score_history p))"
    using history_text_plain by simp
  show ?thesis
    unfolding py_split_def player_body_def history_text_def [symmetric]
    using assms 1 2
    by (simp add: split_acc_sep split_acc_no_sep)
qed

lemma player_body_ends:
  assumes "storable (name p)" and "score_history p \<noteq> []"
  shows "player_body p \<noteq> [] \<and> \<not> is_space (hd (player_body p))
     \<and> \<not> is_space (last (player_body p))"
proof -
  have bar: "\<not> is_space CHR ''|''" by (simp add: is_space_def)
  have hd_ok: "\<not> is_space (hd (player_body p))"
    using assms(1) bar by (cases "name p") (simp_all add: storable_def player_body_def)
  from history_text_last [OF assms(2)]
  have h: "history_text (score_history p) \<noteq> []"
    and d: "is_digit (last (history_text (score_history p)))" by simp_all
  from h have "last (player_body p) = last (history_text (score_history p))"
    by (simp add: player_body_def history_text_def)
  with d have "\<not> is_space (last (player_body p))"
    using num_char_not_space [of "last (player_body p)"] by (simp add: num_char_def)
  with hd_ok show ?thesis by (simp add: player_body_def)
qed

lemma py_strip_player_line:
  assumes "storable (name p)" and "score_history p \<noteq> []"
  shows "py_strip (player_line p) = player_body p"
  using player_body_ends [OF assms] by (simp add: player_line_body py_strip_snoc_LF)

lemma parse_line_player_line:
  assumes "storable (name p)" and "score_history p \<noteq> []" and "printable p"
  shows "parse_line (player_line p) = Inr (p\<lparr>current_streak := 0\<rparr>)"
proof -
  from assms(1) have bar: "CHR ''|'' \<notin> set (name p)"
    by (simp add: storable_def)
  from assms(3) have ok: "digits_ok (score p)" "digits_ok (games_played p)"
    "digits_ok (best_score p)" "list_all digits_ok (score_history p)"
    by (simp_all add: printable_def)
  have parts: "py_split CHR ''|'' (py_strip (player_line p)) =
     [name p, str_int (score p), str_int (games_played p), str_int (best_score p),
      history_text (score_history p)]"
    by (simp add: py_strip_player_line [OF assms(1,2)] player_body_split [OF bar])
  show ?thesis
    unfolding parse_line_def parts Let_def
    by (simp add: index_def int_field_def int_of_str_str_int ok
        history_text_parse [OF assms(2) ok(4)] Player_def)
qed


section \<open>Reading the file\<close>

subsection \<open>Reading lines\<close>

lemma universal_newlines_id: "CR \<notin> set s \<Longrightarrow> universal_newlines s = s"
  by (induction s rule: universal_newlines.induct) auto

lemma lines_acc_line:
  "LF \<notin> set l \<Longrightarrow> lines_acc acc (l @ LF # rest) = (acc @ l @ [LF]) # lines_acc [] rest"
  by (induction l arbitrary: acc) auto

lemma lines_acc_concat:
  "\<forall>b \<in> set bs. LF \<notin> set b \<Longrightarrow> lines_acc [] (concat (map (\<lambda>b. b @ [LF]) bs)) = map (\<lambda>b. b @ [LF]) bs"
proof (induction bs)
  case Nil
  then show ?case by simp
next
  case (Cons b bs)
  then have "lines_acc [] (b @ LF # concat (map (\<lambda>b. b @ [LF]) bs))
     = (b @ [LF]) # lines_acc [] (concat (map (\<lambda>b. b @ [LF]) bs))"
    using lines_acc_line [of b "[]"] by simp
  with Cons show ?case by simp
qed

lemma readlines_bodies:
  assumes "\<forall>b \<in> set bs. no_linebreak b"
  shows "readlines (concat (map (\<lambda>b. b @ [LF]) bs)) = map (\<lambda>b. b @ [LF]) bs"
proof -
  have lfcr: "LF \<noteq> CR" by (simp add: LF_def CR_def)
  from assms have "CR \<notin> set (concat (map (\<lambda>b. b @ [LF]) bs))"
    using lfcr by (auto simp: no_linebreak_def)
  then have "universal_newlines (concat (map (\<lambda>b. b @ [LF]) bs)) = concat (map (\<lambda>b. b @ [LF]) bs)"
    by (rule universal_newlines_id)
  moreover from assms have "\<forall>b \<in> set bs. LF \<notin> set b"
    by (simp add: no_linebreak_def)
  ultimately show ?thesis
    by (simp add: readlines_def lines_acc_concat)
qed

lemma player_body_no_linebreak:
  "no_linebreak (name p) \<Longrightarrow> no_linebreak (player_body p)"
  using str_int_plain history_text_plain
  by (simp add: no_linebreak_def player_body_def history_text_def [symmetric]
      LF_def CR_def)

lemma storable_no_linebreak: "storable nm \<Longrightarrow> no_linebreak nm"
  by (simp add: storable_def no_linebreak_def)

lemma header_lines_bodies: "header_lines now = map (\<lambda>b. b @ [LF]) (header_bodies now)"
  by (simp add: header_lines_def header_bodies_def)

lemma header_bodies_no_linebreak:
  "no_linebreak now \<Longrightarrow> \<forall>b \<in> set (header_bodies now). no_linebreak b"
  by (simp add: header_bodies_def no_linebreak_def LF_def CR_def)

lemma readlines_file:
  assumes "no_linebreak now" and "\<forall>p \<in> set ps. no_linebreak (name p)"
  shows "readlines (concat (header_lines now @ map player_line ps))
     = header_lines now @ map player_line ps"
proof -
  let ?bs = "header_bodies now @ map player_body ps"
  have e: "header_lines now @ map player_line ps = map (\<lambda>b. b @ [LF]) ?bs"
    by (simp add: header_lines_bodies player_line_body)
  have "\<forall>b \<in> set ?bs. no_linebreak b"
    using header_bodies_no_linebreak [OF assms(1)] assms(2)
    by (auto simp: player_body_no_linebreak)
  then show ?thesis
    unfolding e by (rule readlines_bodies)
qed

lemma readlines_file_text:
  assumes "no_linebreak now" and "\<forall>p \<in> set (get_top_players lb 10). no_linebreak (name p)"
  shows "drop 2 (readlines (file_text now lb)) = map player_line (get_top_players lb 10)"
  using readlines_file [OF assms] by (simp add: file_text_def header_lines_def)

subsection \<open>The dictionary\<close>

lemma dict_set_fresh: "k \<notin> fst ` set d \<Longrightarrow> dict_set d k v = d @ [(k, v)]"
  by (induction d) auto

lemma dict_set_map_fst: "set (map fst (dict_set d k v)) = insert k (set (map fst d))"
proof (induction d)
  case Nil
  show ?case by simp
next
  case (Cons a d)
  obtain k' v' where a: "a = (k', v')" by (cases a)
  from Cons.IH have "fst ` set (dict_set d k v) = insert k (fst ` set d)" by simp
  then show ?case
    by (cases "k' = k") (simp_all add: a insert_commute)
qed

lemma dict_set_keys: "fst ` set (dict_set d k v) = insert k (fst ` set d)"
  using dict_set_map_fst [of d k v] by simp

lemma dict_set_entries: "e \<in> set (dict_set d k v) \<Longrightarrow> e = (k, v) \<or> e \<in> set d"
  by (induction d) (auto split: if_splits)

lemma dict_set_distinct: "distinct (map fst d) \<Longrightarrow> distinct (map fst (dict_set d k v))"
proof (induction d)
  case Nil
  then show ?case by simp
next
  case (Cons a d)
  then show ?case
    using dict_set_map_fst [of d k v] by (cases a) auto
qed

lemma wf_players_dict_set:
  assumes "wf_players d" and "score_history p \<noteq> []"
  shows "wf_players (dict_set d (name p) p)"
  using assms dict_set_entries [of _ d "name p" p]
  by (fastforce simp: wf_players_def dict_set_distinct)

subsection \<open>Loading\<close>

lemma parse_line_streak: "parse_line l = Inr p \<Longrightarrow> current_streak p = 0"
  by (auto simp: parse_line_def Let_def Player_def split: sum.splits)

lemma parse_line_history: "parse_line l = Inr p \<Longrightarrow> score_history p \<noteq> []"
proof -
  assume "parse_line l = Inr p"
  then obtain h where "map_int (py_split CHR '','' h) = Inr (score_history p)"
    by (auto simp: parse_line_def Let_def split: sum.splits)
  then have "length (score_history p) = length (py_split CHR '','' h)"
    by (rule map_int_length)
  then show ?thesis
    using split_acc_not_Nil [of "CHR '',''" "[]" h] by (auto simp: py_split_def)
qed

lemma load_lines_entries:
  "load_lines d ls = (d', r) \<Longrightarrow> (k, p) \<in> set d' \<Longrightarrow> (k, p) \<in> set d \<or> current_streak p = 0"
proof (induction d ls rule: load_lines.induct)
  case (1 d)
  then show ?case by simp
next
  case (2 d line ls)
  show ?case
  proof (cases "py_strip line = []")
    case True
    with 2 show ?thesis by simp
  next
    case False
    show ?thesis
    proof (cases "parse_line line")
      case (Inl e)
      with False "2.prems" show ?thesis by simp
    next
      case (Inr q)
      with False "2.prems" have "load_lines (dict_set d (name q) q) ls = (d', r)" by simp
      with "2.IH"(2) [OF False Inr] "2.prems"(2)
      have "(k, p) \<in> set (dict_set d (name q) q) \<or> current_streak p = 0" by simp
      then show ?thesis
        using dict_set_entries [of "(k, p)" d "name q" q] parse_line_streak [OF Inr] by auto
    qed
  qed
qed

lemma load_lines_wf: "load_lines d ls = (d', r) \<Longrightarrow> wf_players d \<Longrightarrow> wf_players d'"
proof (induction d ls rule: load_lines.induct)
  case (1 d)
  then show ?case by simp
next
  case (2 d line ls)
  show ?case
  proof (cases "py_strip line = []")
    case True
    with 2 show ?thesis by simp
  next
    case False
    show ?thesis
    proof (cases "parse_line line")
      case (Inl e)
      with False "2.prems" show ?thesis by simp
    next
      case (Inr q)
      with False "2.prems" have l: "load_lines (dict_set d (name q) q) ls = (d', r)" by simp
      have "wf_players (dict_set d (name q) q)"
        using "2.prems"(2) parse_line_history [OF Inr] by (rule wf_players_dict_set)
      with "2.IH"(2) [OF False Inr l] show ?thesis by simp
    qed
  qed
qed

lemma load_lines_append:
  "load_lines d ls1 = (d1, None) \<Longrightarrow> load_lines d (ls1 @ ls2) = load_lines d1 ls2"
proof (induction d ls1 rule: load_lines.induct)
  case (1 d)
  then show ?case by simp
next
  case (2 d line ls)
  show ?case
  proof (cases "py_strip line = []")
    case True
    with 2 show ?thesis by simp
  next
    case False
    show ?thesis
    proof (cases "parse_line line")
      case (Inl e)
      with False "2.prems" show ?thesis by simp
    next
      case (Inr q)
      with False 2 show ?thesis by simp
    qed
  qed
qed

lemma load_lines_player_lines:
  assumes "\<forall>p \<in> set ps. storable (name p) \<and> score_history p \<noteq> [] \<and> printable p"
    and "distinct (map name ps)" and "set (map name ps) \<inter> fst ` set d = {}"
  shows "load_lines d (map player_line ps) = (d @ map reset_streak ps, None)"
  using assms
proof (induction ps arbitrary: d)
  case Nil
  then show ?case by simp
next
  case (Cons p ps)
  from Cons.prems(1) have sp: "storable (name p)" and hp: "score_history p \<noteq> []"
    and pp: "printable p" by simp_all
  have strip: "py_strip (player_line p) \<noteq> []"
    using py_strip_player_line [OF sp hp] player_body_ends [OF sp hp] by simp
  have parse: "parse_line (player_line p) = Inr (p\<lparr>current_streak := 0\<rparr>)"
    using sp hp pp by (rule parse_line_player_line)
  from Cons.prems(3) have fresh: "name p \<notin> fst ` set d" by auto
  let ?d = "d @ [reset_streak p]"
  have step: "dict_set d (name (p\<lparr>current_streak := 0\<rparr>)) (p\<lparr>current_streak := 0\<rparr>) = ?d"
    using dict_set_fresh [OF fresh] by (simp add: reset_streak_def)
  have "set (map name ps) \<inter> fst ` set ?d = {}"
    using Cons.prems(2,3) by (auto simp: reset_streak_def)
  with Cons.IH [of ?d] Cons.prems(1,2)
  have "load_lines ?d (map player_line ps) = (?d @ map reset_streak ps, None)" by simp
  with strip parse step show ?case by simp
qed


section \<open>Saving and loading\<close>

subsection \<open>Well-formed dictionaries in every reachable state\<close>

lemma wf_players_Leaderboard: "wf_players (players (Leaderboard d))"
proof (cases d)
  case None
  then show ?thesis by (simp add: Leaderboard_def load_leaderboard_def wf_players_def)
next
  case (Some content)
  obtain d' r where l: "load_lines [] (drop 2 (readlines content)) = (d', r)"
    by (cases "load_lines [] (drop 2 (readlines content))")
  have "wf_players []" by (simp add: wf_players_def)
  with l have "wf_players d'" by (rule load_lines_wf)
  with Some l show ?thesis
    by (cases r) (simp_all add: Leaderboard_def load_leaderboard_def)
qed

lemma wf_players_load_leaderboard:
  assumes "wf_players (players lb)"
  shows "wf_players (players (fst (load_leaderboard lb)))"
proof (cases "disk lb")
  case None
  with assms show ?thesis by (simp add: load_leaderboard_def)
next
  case (Some content)
  obtain d' r where l: "load_lines (players lb) (drop 2 (readlines content)) = (d', r)"
    by (cases "load_lines (players lb) (drop 2 (readlines content))")
  from l assms have "wf_players d'" by (rule load_lines_wf)
  with Some l show ?thesis
    by (cases r) (simp_all add: load_leaderboard_def)
qed

lemma name_update_score: "name (update_score p x) = name p"
  by (simp add: update_score_def Let_def)

lemma history_update_score: "score_history (update_score p x) \<noteq> []"
  by (simp add: update_score_def Let_def)

lemma wf_players_add_score:
  assumes "add_score now lb nm r = Inr (b, lb')" and "wf_players (players lb)"
  shows "wf_players (players lb')"
proof (cases "validate_name nm \<and> validate_score r")
  case False
  with assms show ?thesis by (auto simp: add_score_def split: if_splits)
next
  case True
  then obtain sc where sc: "py_int r = Inr sc"
    using validate_score_parsed by blast
  show ?thesis
  proof (cases "map_of (players lb) nm")
    case None
    have "wf_players (dict_set (players lb) (name (Player nm sc)) (Player nm sc))"
      using assms(2) by (rule wf_players_dict_set) (simp add: Player_def)
    then have "wf_players (dict_set (players lb) nm (Player nm sc))"
      by (simp add: Player_def)
    with assms(1) True sc None show ?thesis
      by (auto simp: add_score_def save_leaderboard_def Let_def)
  next
    case (Some p)
    then have "(nm, p) \<in> set (players lb)" by (rule map_of_SomeD)
    with assms(2) have nm: "name p = nm" by (auto simp: wf_players_def)
    have "wf_players (dict_set (players lb) (name (update_score p sc)) (update_score p sc))"
      using assms(2) history_update_score by (rule wf_players_dict_set)
    then have "wf_players (dict_set (players lb) nm (update_score p sc))"
      by (simp add: name_update_score nm)
    with assms(1) True sc Some show ?thesis
      by (auto simp: add_score_def save_leaderboard_def Let_def)
  qed
qed

subsection \<open>The players that are saved\<close>

lemma wf_players_names: "wf_players d \<Longrightarrow> map name (dict_values d) = map fst d"
  by (auto simp: wf_players_def dict_values_def)

lemma sorted_players_names_distinct:
  assumes "wf_players (players lb)"
  shows "distinct (map name (sorted_players lb))"
proof -
  have "mset (map name (sorted_players lb)) = mset (map name (dict_values (players lb)))"
    by (simp add: sorted_players_def py_sorted_reverse_mset)
  moreover have "distinct (map name (dict_values (players lb)))"
    using assms by (simp add: wf_players_names) (simp add: wf_players_def)
  ultimately show ?thesis
    using mset_eq_imp_distinct_iff by blast
qed

lemma set_sorted_players: "set (sorted_players lb) = snd ` set (players lb)"
  by (simp add: sorted_players_def py_sorted_reverse_def dict_values_def)

lemma set_get_top_players: "set (get_top_players lb n) \<subseteq> snd ` set (players lb)"
  using set_take_subset [of _ "sorted_players lb"]
  by (auto simp: get_top_players_def slice_to_def set_sorted_players [symmetric])

lemma top_players_names_distinct:
  assumes "wf_players (players lb)"
  shows "distinct (map name (get_top_players lb n))"
proof -
  obtain m where "get_top_players lb n = take m (sorted_players lb)"
    using slice_to_take [of n "sorted_players lb"] by (auto simp: get_top_players_def)
  then have "map name (get_top_players lb n) = take m (map name (sorted_players lb))"
    by (simp add: take_map)
  with sorted_players_names_distinct [OF assms] show ?thesis
    by simp
qed

lemma top_players_history:
  assumes "wf_players (players lb)" and "p \<in> set (get_top_players lb n)"
  shows "score_history p \<noteq> []"
  using assms set_get_top_players [of lb n] by (fastforce simp: wf_players_def)

lemma load_saved_file:
  assumes "wf_players (players lb)" and "no_linebreak now"
    and "\<forall>p \<in> set (get_top_players lb 10). storable (name p)"
    and "list_all printable (get_top_players lb 10)"
  shows "load_lines [] (drop 2 (readlines (file_text now lb)))
     = (map reset_streak (get_top_players lb 10), None)"
proof -
  from assms(3) have "\<forall>p \<in> set (get_top_players lb 10). no_linebreak (name p)"
    by (simp add: storable_no_linebreak)
  with assms(2)
  have lines: "drop 2 (readlines (file_text now lb)) = map player_line (get_top_players lb 10)"
    by (rule readlines_file_text)
  have "\<forall>p \<in> set (get_top_players lb 10).
      storable (name p) \<and> score_history p \<noteq> [] \<and> printable p"
    using assms(1,3,4) top_players_history by (auto simp: list_all_iff)
  moreover have "distinct (map name (get_top_players lb 10))"
    using assms(1) by (rule top_players_names_distinct)
  ultimately have "load_lines [] (map player_line (get_top_players lb 10))
     = ([] @ map reset_streak (get_top_players lb 10), None)"
    by (intro load_lines_player_lines) simp_all
  with lines show ?thesis by simp
qed

subsection \<open>Saving players whose numbers can be printed\<close>

lemma line_pieces_ok:
  assumes "printable p"
  shows "line_head p
      = Inr (name p @ ''|'' @ str_int (score p) @ ''|'' @ str_int (games_played p) @ ''|'')
    \<and> line_tail p
      = Inr (str_int (best_score p) @ ''|'' @ py_join '','' (map str_int (score_history p))
          @ [LF])"
  using assms by (simp add: printable_def line_head_def line_tail_def py_str_ok map_str_ok)

lemma written_players:
  "list_all printable ps \<Longrightarrow>
     written (concat (map (\<lambda>p. [line_head p, line_tail p]) ps)) = concat (map player_line ps)"
  by (induction ps) (simp_all add: line_pieces_ok player_line_def)

lemma written_header: "written (map Inr hs @ ws) = concat hs @ written ws"
  by (induction hs) simp_all

lemma save_leaderboard_printable:
  assumes "list_all printable (get_top_players lb 10)"
  shows "save_leaderboard now lb = lb\<lparr>disk := Some (file_text now lb)\<rparr>"
  using assms by (simp add: save_leaderboard_def file_text_def written_header written_players)




lemma printable_Player: "\<bar>sc\<bar> < 100000 \<Longrightarrow> printable (Player nm sc)"
  by (simp add: printable_def Player_def digits_ok_small)

subsection \<open>Saving, then loading\<close>

text \<open>
  Where the file format can hold the names of the ten best players (no \<open>|\<close>, no line
  break, no white space in front) and their numbers can be printed, saving and then
  constructing a new leaderboard from the file gives exactly the ten best players in their
  order, each with the saved \<open>score\<close>, \<open>best_score\<close>, \<open>games_played\<close> and
  \<open>score_history\<close> and with streak 0, and the load reports success.
\<close>

theorem save_load_roundtrip:
  assumes "wf_players (players lb)" and "no_linebreak now"
    and "\<forall>p \<in> set (get_top_players lb 10). storable (name p)"
    and "list_all printable (get_top_players lb 10)"
  shows "load_leaderboard \<lparr>players = [], disk = disk (save_leaderboard now lb)\<rparr>
       = (\<lparr>players = map reset_streak (get_top_players lb 10),
           disk = disk (save_leaderboard now lb)\<rparr>, Loaded)
     \<and> (\<forall>p \<in> set (get_top_players lb 10).
          \<exists>q. map_of (players (Leaderboard (disk (save_leaderboard now lb)))) (name p) = Some q
            \<and> score q = score p \<and> best_score q = best_score p
            \<and> games_played q = games_played p \<and> score_history q = score_history p)"
proof -
  let ?top = "get_top_players lb 10"
  have saved: "disk (save_leaderboard now lb) = Some (file_text now lb)"
    using save_leaderboard_printable [OF assms(4)] by simp
  have l: "load_lines [] (drop 2 (readlines (file_text now lb))) = (map reset_streak ?top, None)"
    using assms by (rule load_saved_file)
  then have full: "load_leaderboard \<lparr>players = [], disk = disk (save_leaderboard now lb)\<rparr>
       = (\<lparr>players = map reset_streak ?top, disk = disk (save_leaderboard now lb)\<rparr>, Loaded)"
    by (simp add: load_leaderboard_def saved)
  then have pl: "players (Leaderboard (disk (save_leaderboard now lb))) = map reset_streak ?top"
    by (simp add: Leaderboard_def)
  have dist: "distinct (map fst (map reset_streak ?top))"
    using top_players_names_distinct [OF assms(1), of 10]
    by (simp add: reset_streak_def comp_def)
  have each: "\<exists>q. map_of (map reset_streak ?top) (name p) = Some q
            \<and> score q = score p \<and> best_score q = best_score p
            \<and> games_played q = games_played p \<and> score_history q = score_history p"
    if "p \<in> set ?top" for p
  proof -
    from that have "(name p, p\<lparr>current_streak := 0\<rparr>) \<in> set (map reset_streak ?top)"
      by (auto simp: reset_streak_def)
    with dist have "map_of (map reset_streak ?top) (name p) = Some (p\<lparr>current_streak := 0\<rparr>)"
      by (rule map_of_is_SomeI)
    then show ?thesis by simp
  qed
  from full pl each show ?thesis by simp
qed

theorem save_load_roundtrip_witness:
  "wf_players [(''Alice'', \<lparr>name = ''Alice'', score = 200, games_played = 3, best_score = 200,
                            score_history = [100, 50, 200], current_streak = 1\<rparr>),
               (''Bob'', Player ''Bob'' 7200)]
   \<and> no_linebreak ''2026-01-01 12:00:00''
   \<and> list_all (\<lambda>p. storable (name p)) (get_top_players
         \<lparr>players = [(''Alice'', \<lparr>name = ''Alice'', score = 200, games_played = 3,
                        best_score = 200, score_history = [100, 50, 200], current_streak = 1\<rparr>),
                     (''Bob'', Player ''Bob'' 7200)], disk = None\<rparr> 10)
   \<and> list_all printable (get_top_players
         \<lparr>players = [(''Alice'', \<lparr>name = ''Alice'', score = 200, games_played = 3,
                        best_score = 200, score_history = [100, 50, 200], current_streak = 1\<rparr>),
                     (''Bob'', Player ''Bob'' 7200)], disk = None\<rparr> 10)
   \<and> players (Leaderboard (disk (save_leaderboard ''2026-01-01 12:00:00''
         \<lparr>players = [(''Alice'', \<lparr>name = ''Alice'', score = 200, games_played = 3,
                        best_score = 200, score_history = [100, 50, 200], current_streak = 1\<rparr>),
                     (''Bob'', Player ''Bob'' 7200)], disk = None\<rparr>)))
     = [(''Bob'', Player ''Bob'' 7200),
        (''Alice'', \<lparr>name = ''Alice'', score = 200, games_played = 3, best_score = 200,
                     score_history = [100, 50, 200], current_streak = 0\<rparr>)]"
proof -
  let ?alice = "\<lparr>name = ''Alice'', score = 200, games_played = 3, best_score = 200,
                 score_history = [100, 50, 200], current_streak = 1\<rparr>"
  let ?lb = "\<lparr>players = [(''Alice'', ?alice), (''Bob'', Player ''Bob'' 7200)], disk = None\<rparr>"
  have 1: "wf_players (players ?lb)" by code_simp
  have 2: "no_linebreak ''2026-01-01 12:00:00''" by code_simp
  have top: "get_top_players ?lb 10 = [Player ''Bob'' 7200, ?alice]" by code_simp
  have 3: "\<forall>p \<in> set (get_top_players ?lb 10). storable (name p)"
    unfolding top by code_simp
  have 4: "list_all printable (get_top_players ?lb 10)"
    unfolding top by (simp add: printable_Player) (simp add: printable_def digits_ok_small)
  from save_load_roundtrip [OF 1 2 3 4]
  have "load_leaderboard \<lparr>players = [], disk = disk (save_leaderboard ''2026-01-01 12:00:00'' ?lb)\<rparr>
       = (\<lparr>players = map reset_streak (get_top_players ?lb 10),
           disk = disk (save_leaderboard ''2026-01-01 12:00:00'' ?lb)\<rparr>, Loaded)"
    by (rule conjunct1)
  then have "players (Leaderboard (disk (save_leaderboard ''2026-01-01 12:00:00'' ?lb)))
     = map reset_streak [Player ''Bob'' 7200, ?alice]"
    by (simp add: Leaderboard_def top)
  with 1 2 3 4 show ?thesis
    by (simp add: reset_streak_def Player_def list_all_iff)
qed

text \<open>
  C2: saving and then constructing a new leaderboard should give back every player of the
  saved file. The code does not for a name that holds the separator: \<open>validate_name\<close>
  accepts \<open>A|B\<close>, \<open>add_score\<close> stores and saves the player, and \<open>load_leaderboard\<close> then
  fails on the line \<open>A|B|100|1|100|100\<close> (\<open>int('B')\<close> raises \<open>ValueError\<close>): the new
  leaderboard is empty.
\<close>

theorem save_load_delimiter_failure:
  "validate_name ''A|B''
   \<and> add_score ''2026-01-01 12:00:00'' \<lparr>players = [], disk = None\<rparr> ''A|B'' (PyStr ''100'')
     = Inr (True, save_leaderboard ''2026-01-01 12:00:00''
                    \<lparr>players = [(''A|B'', Player ''A|B'' 100)], disk = None\<rparr>)
   \<and> get_top_players \<lparr>players = [(''A|B'', Player ''A|B'' 100)], disk = None\<rparr> 10
     = [Player ''A|B'' 100]
   \<and> disk (save_leaderboard ''2026-01-01 12:00:00''
             \<lparr>players = [(''A|B'', Player ''A|B'' 100)], disk = None\<rparr>)
     = Some ''Leaderboard - Updated: 2026-01-01 12:00:00\<newline>============================================================\<newline>A|B|100|1|100|100\<newline>''
   \<and> load_leaderboard
        \<lparr>players = [],
         disk = Some ''Leaderboard - Updated: 2026-01-01 12:00:00\<newline>============================================================\<newline>A|B|100|1|100|100\<newline>''\<rparr>
     = (\<lparr>players = [],
         disk = Some ''Leaderboard - Updated: 2026-01-01 12:00:00\<newline>============================================================\<newline>A|B|100|1|100|100\<newline>''\<rparr>,
        LoadError ValueError)"
  by code_simp

subsection \<open>What is saved\<close>




subsection \<open>What is loaded\<close>

text \<open>
  C1 (as amended): when a line of the file cannot be parsed, \<open>load_leaderboard\<close> stops at
  that line and reports the error; the players of the lines before it stay in the
  dictionary, the lines after it are not read.
\<close>

theorem load_leaderboard_parse_error:
  assumes "disk lb = Some content"
    and "drop 2 (readlines content) = before @ bad # rest"
    and "load_lines (players lb) before = (d, None)"
    and "py_strip bad \<noteq> []" and "parse_line bad = Inl e"
  shows "load_leaderboard lb = (lb\<lparr>players := d\<rparr>, LoadError e)"
proof -
  from assms(3) have "load_lines (players lb) (before @ bad # rest) = load_lines d (bad # rest)"
    by (rule load_lines_append)
  also from assms(4,5) have "\<dots> = (d, Some e)" by simp
  finally show ?thesis
    using assms(1,2) by (simp add: load_leaderboard_def)
qed

text \<open>In the second line of this file the score is written with the separator U+001C in
  front, which \<open>int\<close> does not accept.\<close>

theorem load_leaderboard_parse_error_witness:
  "disk \<lparr>players = [], disk = Some (''head\<newline>====\<newline>Alice|100|1|100|100\<newline>Sep|''
            @ [CHR 0x1C] @ ''7|1|7|7\<newline>Eve|7|1|7|7\<newline>'')\<rparr>
     = Some (''head\<newline>====\<newline>Alice|100|1|100|100\<newline>Sep|''
            @ [CHR 0x1C] @ ''7|1|7|7\<newline>Eve|7|1|7|7\<newline>'')
   \<and> drop 2 (readlines (''head\<newline>====\<newline>Alice|100|1|100|100\<newline>Sep|''
            @ [CHR 0x1C] @ ''7|1|7|7\<newline>Eve|7|1|7|7\<newline>''))
     = [''Alice|100|1|100|100\<newline>''] @ (''Sep|'' @ [CHR 0x1C] @ ''7|1|7|7\<newline>'')
         # [''Eve|7|1|7|7\<newline>'']
   \<and> load_lines [] [''Alice|100|1|100|100\<newline>''] = ([(''Alice'', Player ''Alice'' 100)], None)
   \<and> py_strip (''Sep|'' @ [CHR 0x1C] @ ''7|1|7|7\<newline>'') \<noteq> []
   \<and> parse_line (''Sep|'' @ [CHR 0x1C] @ ''7|1|7|7\<newline>'') = Inl ValueError
   \<and> load_leaderboard \<lparr>players = [], disk = Some (''head\<newline>====\<newline>Alice|100|1|100|100\<newline>Sep|''
            @ [CHR 0x1C] @ ''7|1|7|7\<newline>Eve|7|1|7|7\<newline>'')\<rparr>
     = (\<lparr>players = [(''Alice'', Player ''Alice'' 100)],
         disk = Some (''head\<newline>====\<newline>Alice|100|1|100|100\<newline>Sep|''
            @ [CHR 0x1C] @ ''7|1|7|7\<newline>Eve|7|1|7|7\<newline>'')\<rparr>,
        LoadError ValueError)"
proof -
  let ?bad = "''Sep|'' @ [CHR 0x1C] @ ''7|1|7|7\<newline>''"
  let ?file = "''head\<newline>====\<newline>Alice|100|1|100|100\<newline>Sep|''
            @ [CHR 0x1C] @ ''7|1|7|7\<newline>Eve|7|1|7|7\<newline>''"
  let ?lb = "\<lparr>players = [], disk = Some ?file\<rparr>"
  have 1: "disk ?lb = Some ?file" by simp
  have 2: "drop 2 (readlines ?file)
     = [''Alice|100|1|100|100\<newline>''] @ ?bad # [''Eve|7|1|7|7\<newline>'']"
    by code_simp
  have 3: "load_lines (players ?lb) [''Alice|100|1|100|100\<newline>'']
     = ([(''Alice'', Player ''Alice'' 100)], None)"
    by code_simp
  have 4: "py_strip ?bad \<noteq> []" by code_simp
  have 5: "parse_line ?bad = Inl ValueError" by code_simp
  from load_leaderboard_parse_error [OF 1 2 3 4 5]
  have "load_leaderboard ?lb = (?lb\<lparr>players := [(''Alice'', Player ''Alice'' 100)]\<rparr>,
      LoadError ValueError)" .
  then have 6: "load_leaderboard ?lb
      = (\<lparr>players = [(''Alice'', Player ''Alice'' 100)], disk = Some ?file\<rparr>,
         LoadError ValueError)"
    by simp
  from 3 have first: "load_lines [] [''Alice|100|1|100|100\<newline>'']
     = ([(''Alice'', Player ''Alice'' 100)], None)"
    by simp
  from 1 2 first 4 5 6 show ?thesis by (intro conjI)
qed

text \<open>
  The player of the first line stays in the dictionary although the second line fails.
\<close>

theorem load_leaderboard_partial_counterexample:
  "load_leaderboard
     \<lparr>players = [],
      disk = Some ''Leaderboard - Updated: 2026-01-01 12:00:00\<newline>====\<newline>Alice|100|1|100|100\<newline>garbage\<newline>''\<rparr>
   = (\<lparr>players = [(''Alice'', Player ''Alice'' 100)],
       disk = Some ''Leaderboard - Updated: 2026-01-01 12:00:00\<newline>====\<newline>Alice|100|1|100|100\<newline>garbage\<newline>''\<rparr>,
      LoadError IndexError)"
  by code_simp

text \<open>
  C10: every player that \<open>load_leaderboard\<close> puts into the dictionary has streak 0: after
  the constructor all players have streak 0, and after a later load every entry is either
  an entry from before the load or has streak 0. Neither the line of a player nor the two
  pieces that \<open>save_leaderboard\<close> writes for it depend on the streak.
\<close>

theorem load_leaderboard_streak:
  "(\<forall>(k, p) \<in> set (players (Leaderboard d)). current_streak p = 0)
   \<and> (\<forall>(k, p) \<in> set (players (fst (load_leaderboard lb))).
         (k, p) \<in> set (players lb) \<or> current_streak p = 0)
   \<and> player_line (q\<lparr>current_streak := c\<rparr>) = player_line q
   \<and> line_head (q\<lparr>current_streak := c\<rparr>) = line_head q
   \<and> line_tail (q\<lparr>current_streak := c\<rparr>) = line_tail q"
proof -
  have gen: "(k, p) \<in> set (players lb) \<or> current_streak p = 0"
    if "(k, p) \<in> set (players (fst (load_leaderboard lb)))" for lb k p
  proof (cases "disk lb")
    case None
    with that show ?thesis by (simp add: load_leaderboard_def)
  next
    case (Some content)
    obtain d' r where l: "load_lines (players lb) (drop 2 (readlines content)) = (d', r)"
      by (cases "load_lines (players lb) (drop 2 (readlines content))")
    with Some that have "(k, p) \<in> set d'"
      by (cases r) (simp_all add: load_leaderboard_def)
    with l show ?thesis by (rule load_lines_entries)
  qed
  have fresh: "current_streak p = 0" if "(k, p) \<in> set (players (Leaderboard d))" for k p
    using gen [of k p "\<lparr>players = [], disk = d\<rparr>"] that by (simp add: Leaderboard_def)
  have line: "player_line (q\<lparr>current_streak := c\<rparr>) = player_line q"
    by (simp add: player_line_def)
  have pieces: "line_head (q\<lparr>current_streak := c\<rparr>) = line_head q"
    "line_tail (q\<lparr>current_streak := c\<rparr>) = line_tail q"
    by (simp_all add: line_head_def line_tail_def split: sum.splits)
  from gen fresh line pieces show ?thesis by blast
qed

theorem load_leaderboard_streak_witness:
  "(''Alice'', \<lparr>name = ''Alice'', score = 200, games_played = 3, best_score = 200,
                score_history = [100, 50, 200], current_streak = 0\<rparr>)
     \<in> set (players (Leaderboard (disk (save_leaderboard ''2026-01-01 12:00:00''
          \<lparr>players = [(''Alice'', \<lparr>name = ''Alice'', score = 200, games_played = 3,
                         best_score = 200, score_history = [100, 50, 200],
                         current_streak = 1\<rparr>)], disk = None\<rparr>))))
   \<and> current_streak \<lparr>name = ''Alice'', score = 200, games_played = 3, best_score = 200,
                score_history = [100, 50, 200], current_streak = 0\<rparr> = 0"
proof -
  let ?d = "disk (save_leaderboard ''2026-01-01 12:00:00''
          \<lparr>players = [(''Alice'', \<lparr>name = ''Alice'', score = 200, games_played = 3,
                         best_score = 200, score_history = [100, 50, 200],
                         current_streak = 1\<rparr>)], disk = None\<rparr>)"
  let ?p = "\<lparr>name = ''Alice'', score = 200, games_played = 3, best_score = 200,
                score_history = [100, 50, 200], current_streak = 0\<rparr>"
  have mem: "(''Alice'', ?p) \<in> set (players (Leaderboard ?d))"
    by code_simp
  from load_leaderboard_streak [of ?d]
  have "\<forall>(k, p) \<in> set (players (Leaderboard ?d)). current_streak p = 0"
    by (rule conjunct1)
  with mem have "current_streak ?p = 0" by blast
  with mem show ?thesis by (intro conjI)
qed

end
